theory Spec2Isabelle
  imports Main
begin

section \<open>The Wyze doorbell event bridge (wyze\_event\_bridge.py)\<close>

subsection \<open>Time\<close>

text \<open>
  A timezone-aware \<^verbatim>\<open>datetime\<close> denotes an instant with microsecond resolution; comparing
  two aware datetimes compares their instants, and \<^verbatim>\<open>astimezone(timezone.utc)\<close> keeps the
  instant. A datetime is therefore the number of microseconds since the epoch, and a
  \<^verbatim>\<open>timedelta\<close> a number of microseconds.
\<close>

type_synonym datetime = int

type_synonym timedelta = int

definition timedelta_milliseconds :: "int \<Rightarrow> timedelta" where
  "timedelta_milliseconds ms = ms * 1000"


subsection \<open>Configuration\<close>

definition TARGET_API_URL :: string where
  "TARGET_API_URL = ''http://localhost:5000/api/wyze/doorbell''"

definition POLLING_INTERVAL_SECONDS :: int where
  "POLLING_INTERVAL_SECONDS = 5"

definition EVENT_TYPE_BUTTON_PRESS :: int where
  "EVENT_TYPE_BUTTON_PRESS = 2005"

subsection \<open>Data\<close>

text \<open>An event of the SDK, with the two attributes the bridge reads.\<close>

record event =
  event_type :: int
  event_ts :: datetime

text \<open>
  The dictionary built at lines 95-100. \<^verbatim>\<open>eventTime\<close> is the ISO-8601 rendering of the UTC
  instant, which determines the instant and is determined by it; the model keeps the
  instant.
\<close>

record event_data =
  eventType :: int
  deviceMac :: string
  eventTime :: datetime

text \<open>The JSON body built at lines 47-52.\<close>

record payload =
  payload_eventType :: int
  payload_deviceMac :: string
  eventTimeUtc :: datetime
  message :: string

text \<open>
  Exceptions. \<^verbatim>\<open>HTTPError\<close>, \<^verbatim>\<open>Timeout\<close> and \<^verbatim>\<open>ConnectionError\<close> are subclasses of
  \<^verbatim>\<open>requests.exceptions.RequestException\<close>; \<open>OtherException\<close> stands for every other
  subclass of \<^verbatim>\<open>Exception\<close>.
\<close>

datatype exn = HTTPError int | Timeout | ConnectionError | OtherException

fun is_RequestException :: "exn \<Rightarrow> bool" where
  "is_RequestException (HTTPError status) = True"
| "is_RequestException Timeout = True"
| "is_RequestException ConnectionError = True"
| "is_RequestException OtherException = False"

text \<open>The lines the program prints, one constructor for each \<^verbatim>\<open>print\<close> statement.\<close>

datatype log_line =
    Sending
  | Responded int
  | SendError exn
  | SendUnexpected exn
  | Polling datetime datetime
  | Found nat
  | NoPresses
  | PollError exn

text \<open>
  What survives a call: the global \<^verbatim>\<open>last_check_time\<close>, the requests handed to
  \<^verbatim>\<open>requests.post\<close> so far (every attempt, in order) and the lines printed so far.
\<close>

record world =
  last_check_time :: datetime
  posts :: "payload list"
  log :: "log_line list"

text \<open>
  The two collaborators are outside the repository and are parameters of the model.
  The downstream endpoint answers a POST with a status code or the call raises; its
  answer may depend on everything posted so far, the current request last.
  The upstream client is called with the device, the window and the cap, and returns a
  list of events or raises.
\<close>

type_synonym sink = "payload list \<Rightarrow> exn + int"

type_synonym client = "string \<Rightarrow> datetime \<Rightarrow> datetime \<Rightarrow> nat \<Rightarrow> exn + event list"

subsection \<open>Module initialisation (lines 38-40)\<close>


subsection \<open>send\_to\_csharp\_bridge (lines 42-62)\<close>

definition print_line :: "log_line \<Rightarrow> world \<Rightarrow> world" where
  "print_line l w = w\<lparr>log := log w @ [l]\<rparr>"

definition raise_for_status :: "int \<Rightarrow> exn + unit" where
  "raise_for_status status =
     (if 400 \<le> status \<and> status < 600 then Inl (HTTPError status) else Inr ())"

definition requests_post :: "sink \<Rightarrow> payload \<Rightarrow> world \<Rightarrow> world \<times> (exn + int)" where
  "requests_post snk p w =
     (let w' = w\<lparr>posts := posts w @ [p]\<rparr> in (w', snk (posts w')))"

definition make_payload :: "event_data \<Rightarrow> payload" where
  "make_payload ed =
     \<lparr>payload_eventType = eventType ed,
      payload_deviceMac = deviceMac ed,
      eventTimeUtc = eventTime ed,
      message = ''Doorbell Button Pressed''\<rparr>"

text \<open>The body of the \<^verbatim>\<open>try\<close> block: the world it leaves, and the status or the exception.\<close>

definition send_try :: "sink \<Rightarrow> event_data \<Rightarrow> world \<Rightarrow> world \<times> (exn + int)" where
  "send_try snk ed w =
     (case requests_post snk (make_payload ed) w of
        (w', Inl e) \<Rightarrow> (w', Inl e)
      | (w', Inr status) \<Rightarrow>
          (case raise_for_status status of
             Inl e \<Rightarrow> (w', Inl e)
           | Inr u \<Rightarrow> (print_line (Responded status) w', Inr status)))"

definition send_to_csharp_bridge :: "sink \<Rightarrow> event_data \<Rightarrow> world \<Rightarrow> world \<times> (exn + unit)" where
  "send_to_csharp_bridge snk ed w =
     (case send_try snk ed (print_line Sending w) of
        (w', Inr status) \<Rightarrow> (w', Inr ())
      | (w', Inl e) \<Rightarrow>
          (if is_RequestException e then (print_line (SendError e) w', Inr ())
           else (print_line (SendUnexpected e) w', Inr ())))"

subsection \<open>poll\_for\_doorbell\_events (lines 64-130)\<close>

definition make_event_data :: "string \<Rightarrow> event \<Rightarrow> event_data" where
  "make_event_data device_mac ev =
     \<lparr>eventType = event_type ev, deviceMac = device_mac, eventTime = event_ts ev\<rparr>"

text \<open>The loop of lines 91-105 over the returned events.\<close>

fun scan_events :: "string \<Rightarrow> event list \<Rightarrow> event_data list \<times> datetime \<Rightarrow> event_data list \<times> datetime" where
  "scan_events device_mac [] (new_doorbell_presses, latest_event_time) =
     (new_doorbell_presses, latest_event_time)"
| "scan_events device_mac (ev # events) (new_doorbell_presses, latest_event_time) =
     scan_events device_mac events
       (if event_type ev = EVENT_TYPE_BUTTON_PRESS
        then new_doorbell_presses @ [make_event_data device_mac ev]
        else new_doorbell_presses,
        if event_ts ev > latest_event_time then event_ts ev else latest_event_time)"

text \<open>The loop of lines 112-113; an exception of a call would leave the loop.\<close>

fun send_each :: "sink \<Rightarrow> event_data list \<Rightarrow> world \<Rightarrow> world \<times> (exn + unit)" where
  "send_each snk [] w = (w, Inr ())"
| "send_each snk (press # presses) w =
     (case send_to_csharp_bridge snk press w of
        (w', Inl e) \<Rightarrow> (w', Inl e)
      | (w', Inr u) \<Rightarrow> send_each snk presses w')"

text \<open>The body of the \<^verbatim>\<open>try\<close> block, lines 79-122.\<close>

definition poll_try :: "sink \<Rightarrow> client \<Rightarrow> string \<Rightarrow> datetime \<Rightarrow> datetime \<Rightarrow> datetime \<Rightarrow> world \<Rightarrow> world \<times> (exn + unit)" where
  "poll_try snk cl device_mac current_time start_time end_time w =
     (case cl device_mac start_time end_time 10 of
        Inl e \<Rightarrow> (w, Inl e)
      | Inr events \<Rightarrow>
          (case scan_events device_mac events ([], start_time) of
             (new_doorbell_presses, latest_event_time) \<Rightarrow>
               (case (if new_doorbell_presses \<noteq> []
                      then send_each snk (rev new_doorbell_presses)
                             (print_line (Found (length new_doorbell_presses)) w)
                      else (print_line NoPresses w, Inr ())) of
                  (w', Inl e) \<Rightarrow> (w', Inl e)
                | (w', Inr u) \<Rightarrow>
                    (if latest_event_time > last_check_time w'
                     then w'\<lparr>last_check_time := latest_event_time + timedelta_milliseconds 1\<rparr>
                     else w'\<lparr>last_check_time := current_time\<rparr>,
                     Inr ()))))"

text \<open>
  One call. \<open>now\<close> is the value \<^verbatim>\<open>datetime.now(timezone.utc)\<close> returns at line 68, read
  once.
\<close>

definition poll_for_doorbell_events :: "sink \<Rightarrow> datetime \<Rightarrow> client \<Rightarrow> string \<Rightarrow> world \<Rightarrow> world" where
  "poll_for_doorbell_events snk now cl device_mac w =
     (let current_time = now;
          start_time = last_check_time w;
          end_time = current_time
      in case poll_try snk cl device_mac current_time start_time end_time
                (print_line (Polling start_time end_time) w) of
           (w', Inl e) \<Rightarrow> print_line (PollError e) w'
         | (w', Inr u) \<Rightarrow> w')"

subsection \<open>main (lines 132-142)\<close>


fun run_cycles :: "sink \<Rightarrow> string \<Rightarrow> (datetime \<times> client) list \<Rightarrow> world \<Rightarrow> world" where
  "run_cycles snk device_mac [] w = w"
| "run_cycles snk device_mac (c # cs) w =
     run_cycles snk device_mac cs (poll_for_doorbell_events snk (fst c) (snd c) device_mac w)"

fun windows :: "sink \<Rightarrow> string \<Rightarrow> (datetime \<times> client) list \<Rightarrow> world \<Rightarrow> (datetime \<times> datetime) list" where
  "windows snk device_mac [] w = []"
| "windows snk device_mac (c # cs) w =
     (last_check_time w, fst c)
       # windows snk device_mac cs (poll_for_doorbell_events snk (fst c) (snd c) device_mac w)"

subsection \<open>Vocabulary of the properties\<close>

text \<open>The returned events that qualify for delivery, and the request sent for one.\<close>

definition button_presses :: "event list \<Rightarrow> event list" where
  "button_presses events = filter (\<lambda>ev. event_type ev = EVENT_TYPE_BUTTON_PRESS) events"

definition payload_of :: "string \<Rightarrow> event \<Rightarrow> payload" where
  "payload_of device_mac ev = make_payload (make_event_data device_mac ev)"

text \<open>Consecutive cycles against one client: the clock readings are all that varies.\<close>

definition cycles :: "client \<Rightarrow> datetime list \<Rightarrow> (datetime \<times> client) list" where
  "cycles cl nows = map (\<lambda>b. (b, cl)) nows"

text \<open>
  Windows overlap when each of them starts before it ends and each later one starts no
  later than the one before it ends, so that together they leave no instant uncovered.
\<close>

fun overlapping :: "(datetime \<times> datetime) list \<Rightarrow> bool" where
  "overlapping [] = True"
| "overlapping [x] = (fst x < snd x)"
| "overlapping (x # y # zs) = (fst x < snd x \<and> fst y \<le> snd x \<and> overlapping (y # zs))"

text \<open>
  The query for a window succeeds and returns, in any order and within the cap of 10,
  the events of \<open>E\<close> that fall in the window. The bounds of a query are given as inclusive
  and a window as half-open, so an event exactly at the end of the window may be among
  those returned or not.
\<close>

definition returns_window :: "event list \<Rightarrow> client \<Rightarrow> string \<Rightarrow> datetime \<times> datetime \<Rightarrow> bool" where
  "returns_window E cl device_mac win =
     (case cl device_mac (fst win) (snd win) 10 of
        Inl e \<Rightarrow> False
      | Inr events \<Rightarrow>
          length events \<le> 10 \<and> distinct events \<and>
          set (filter (\<lambda>ev. fst win \<le> event_ts ev \<and> event_ts ev < snd win) E) \<subseteq> set events \<and>
          set events \<subseteq> set (filter (\<lambda>ev. fst win \<le> event_ts ev \<and> event_ts ev \<le> snd win) E))"

subsection \<open>Example collaborators and inputs\<close>

definition returning :: "event list \<Rightarrow> client" where
  "returning events device_mac start_time end_time max_count = Inr events"

definition raising :: "exn \<Rightarrow> client" where
  "raising e device_mac start_time end_time max_count = Inl e"

definition answering :: "int \<Rightarrow> sink" where
  "answering status history = Inr status"

definition press_at :: "datetime \<Rightarrow> event" where
  "press_at t = \<lparr>event_type = 2005, event_ts = t\<rparr>"

definition motion_at :: "datetime \<Rightarrow> event" where
  "motion_at t = \<lparr>event_type = 1, event_ts = t\<rparr>"

definition world_at :: "datetime \<Rightarrow> world" where
  "world_at t = \<lparr>last_check_time = t, posts = [], log = []\<rparr>"

definition refusing :: "exn \<Rightarrow> sink" where
  "refusing e history = Inl e"

text \<open>An endpoint that times out on the first request, answers 500 to the second and 200 after.\<close>

definition unreliable :: sink where
  "unreliable history =
     (if length history = 1 then Inl Timeout
      else if length history = 2 then Inr 500
      else Inr 200)"

text \<open>
  An upstream that holds a fixed list of events and answers a query with those whose
  timestamp lies between the bounds, both included, up to the cap.
\<close>

definition upstream :: "event list \<Rightarrow> client" where
  "upstream E device_mac start_time end_time max_count =
     Inr (take max_count (filter (\<lambda>ev. start_time \<le> event_ts ev \<and> event_ts ev \<le> end_time) E))"

definition three_presses :: "event list" where
  "three_presses = [press_at 1000000, press_at 6000000, press_at 12000000]"

section \<open>Properties\<close>

subsection \<open>Effects of the delivery adapter\<close>

lemma print_line_simps:
  "last_check_time (print_line l w) = last_check_time w"
  "posts (print_line l w) = posts w"
  "log (print_line l w) = log w @ [l]"
  by (simp_all add: print_line_def)

lemma send_to_csharp_bridge_returns:
  "snd (send_to_csharp_bridge snk ed w) = Inr ()"
  by (simp add: send_to_csharp_bridge_def split: prod.splits sum.splits)

lemma send_to_csharp_bridge_posts:
  "posts (fst (send_to_csharp_bridge snk ed w)) = posts w @ [make_payload ed]"
  by (simp add: send_to_csharp_bridge_def send_try_def requests_post_def Let_def print_line_simps
      split: prod.splits sum.splits)

lemma send_to_csharp_bridge_last_check_time:
  "last_check_time (fst (send_to_csharp_bridge snk ed w)) = last_check_time w"
  by (simp add: send_to_csharp_bridge_def send_try_def requests_post_def Let_def print_line_simps
      split: prod.splits sum.splits)

lemma send_each_returns: "snd (send_each snk presses w) = Inr ()"
proof (induction presses arbitrary: w)
  case Nil
  show ?case by simp
next
  case (Cons press presses)
  have "snd (send_to_csharp_bridge snk press w) = Inr ()"
    by (rule send_to_csharp_bridge_returns)
  then show ?case
    using Cons.IH by (cases "send_to_csharp_bridge snk press w") simp
qed

lemma send_each_posts:
  "posts (fst (send_each snk presses w)) = posts w @ map make_payload presses"
proof (induction presses arbitrary: w)
  case Nil
  show ?case by simp
next
  case (Cons press presses)
  obtain w' r where s: "send_to_csharp_bridge snk press w = (w', r)"
    by (cases "send_to_csharp_bridge snk press w")
  have r: "r = Inr ()"
    using send_to_csharp_bridge_returns [of snk press w] s by simp
  have "posts w' = posts w @ [make_payload press]"
    using send_to_csharp_bridge_posts [of snk press w] s by simp
  then show ?case
    using Cons.IH [of w'] s r by simp
qed

lemma send_each_last_check_time:
  "last_check_time (fst (send_each snk presses w)) = last_check_time w"
proof (induction presses arbitrary: w)
  case Nil
  show ?case by simp
next
  case (Cons press presses)
  obtain w' r where s: "send_to_csharp_bridge snk press w = (w', r)"
    by (cases "send_to_csharp_bridge snk press w")
  have r: "r = Inr ()"
    using send_to_csharp_bridge_returns [of snk press w] s by simp
  have "last_check_time w' = last_check_time w"
    using send_to_csharp_bridge_last_check_time [of snk press w] s by simp
  then show ?case
    using Cons.IH [of w'] s r by simp
qed

subsection \<open>The scan of the returned events\<close>

lemma scan_events_presses:
  "fst (scan_events device_mac events (presses, latest)) =
     presses @ map (make_event_data device_mac) (button_presses events)"
  by (induction events arbitrary: presses latest) (simp_all add: button_presses_def)

lemma scan_events_latest_ge:
  "latest \<le> snd (scan_events device_mac events (presses, latest))"
proof (induction events arbitrary: presses latest)
  case Nil
  show ?case by simp
next
  case (Cons ev events)
  show ?case
    using Cons.IH [of "event_ts ev"] Cons.IH [of latest]
    by (simp add: order.strict_implies_order order_trans [OF order.strict_implies_order])
qed

lemma scan_events_latest_upper:
  "ev \<in> set events \<Longrightarrow> event_ts ev \<le> snd (scan_events device_mac events (presses, latest))"
proof (induction events arbitrary: presses latest)
  case Nil
  then show ?case by simp
next
  case (Cons a events)
  show ?case
  proof (cases "ev = a")
    case True
    have "event_ts a \<le> (if event_ts a > latest then event_ts a else latest)" by simp
    also have "\<dots> \<le> snd (scan_events device_mac (a # events) (presses, latest))"
      using scan_events_latest_ge by simp
    finally show ?thesis using True by simp
  next
    case False
    then have "ev \<in> set events" using Cons.prems by simp
    then show ?thesis using Cons.IH by simp
  qed
qed

lemma scan_events_latest_mem:
  "snd (scan_events device_mac events (presses, latest)) \<in> insert latest (event_ts ` set events)"
proof (induction events arbitrary: presses latest)
  case Nil
  show ?case by simp
next
  case (Cons a events)
  show ?case
    using Cons.IH [of _ "event_ts a"] Cons.IH [of _ latest] by auto
qed

lemma scan_events_latest:
  "snd (scan_events device_mac events (presses, latest)) =
     Max (insert latest (event_ts ` set events))"
proof (rule sym, rule Max_eqI)
  show "finite (insert latest (event_ts ` set events))" by simp
next
  fix y assume "y \<in> insert latest (event_ts ` set events)"
  then show "y \<le> snd (scan_events device_mac events (presses, latest))"
    using scan_events_latest_ge scan_events_latest_upper by auto
next
  show "snd (scan_events device_mac events (presses, latest)) \<in> insert latest (event_ts ` set events)"
    by (rule scan_events_latest_mem)
qed

subsection \<open>One cycle, by the outcome of its query\<close>

lemma poll_query_raises:
  assumes "cl device_mac (last_check_time w) now 10 = Inl e"
  shows "poll_for_doorbell_events snk now cl device_mac w =
           print_line (PollError e) (print_line (Polling (last_check_time w) now) w)"
  using assms by (simp add: Let_def poll_for_doorbell_events_def poll_try_def print_line_simps)

lemma poll_query_returns_posts:
  assumes "cl device_mac (last_check_time w) now 10 = Inr events"
  shows "posts (poll_for_doorbell_events snk now cl device_mac w) =
           posts w @ map (payload_of device_mac) (rev (button_presses events))"
proof -
  obtain ps l where sc: "scan_events device_mac events ([], last_check_time w) = (ps, l)"
    by (cases "scan_events device_mac events ([], last_check_time w)")
  have ps: "ps = map (make_event_data device_mac) (button_presses events)"
    using scan_events_presses [of device_mac events "[]" "last_check_time w"] sc by simp
  have po: "payload_of device_mac = (\<lambda>ev. make_payload (make_event_data device_mac ev))"
    by (rule ext) (simp add: payload_of_def)
  show ?thesis
  proof (cases "ps = []")
    case True
    then show ?thesis
      using assms sc ps
      by (simp add: Let_def poll_for_doorbell_events_def poll_try_def print_line_simps)
  next
    case False
    obtain w' r where se: "send_each snk (rev ps) (print_line (Found (length ps))
                             (print_line (Polling (last_check_time w) now) w)) = (w', r)"
      by (cases "send_each snk (rev ps) (print_line (Found (length ps))
                             (print_line (Polling (last_check_time w) now) w))")
    have r: "r = Inr ()"
      using send_each_returns [of snk "rev ps"] se by (metis snd_conv)
    have "posts w' = posts w @ map make_payload (rev ps)"
      using send_each_posts [of snk "rev ps"] se by (metis fst_conv print_line_simps(2))
    then show ?thesis
      using assms sc False se r ps po
      by (simp add: Let_def poll_for_doorbell_events_def poll_try_def rev_map)
  qed
qed

lemma poll_query_returns_last_check_time:
  assumes "cl device_mac (last_check_time w) now 10 = Inr events"
  shows "last_check_time (poll_for_doorbell_events snk now cl device_mac w) =
           (if Max (insert (last_check_time w) (event_ts ` set events)) > last_check_time w
            then Max (insert (last_check_time w) (event_ts ` set events)) + 1000
            else now)"
proof -
  obtain ps l where sc: "scan_events device_mac events ([], last_check_time w) = (ps, l)"
    by (cases "scan_events device_mac events ([], last_check_time w)")
  have l: "l = Max (insert (last_check_time w) (event_ts ` set events))"
    using scan_events_latest [of device_mac events "[]" "last_check_time w"] sc by simp
  show ?thesis
  proof (cases "ps = []")
    case True
    then show ?thesis
      using assms sc l
      by (simp add: Let_def poll_for_doorbell_events_def poll_try_def print_line_simps
          timedelta_milliseconds_def)
  next
    case False
    obtain w' r where se: "send_each snk (rev ps) (print_line (Found (length ps))
                             (print_line (Polling (last_check_time w) now) w)) = (w', r)"
      by (cases "send_each snk (rev ps) (print_line (Found (length ps))
                             (print_line (Polling (last_check_time w) now) w))")
    have r: "r = Inr ()"
      using send_each_returns [of snk "rev ps"] se by (metis snd_conv)
    have "last_check_time w' = last_check_time w"
      using send_each_last_check_time [of snk "rev ps"] se by (metis fst_conv print_line_simps(1))
    then show ?thesis
      using assms sc False se r l
      by (simp add: Let_def poll_for_doorbell_events_def poll_try_def timedelta_milliseconds_def)
  qed
qed

lemma poll_last_check_time_eq:
  "last_check_time (poll_for_doorbell_events snk b cl device_mac w) =
     (case cl device_mac (last_check_time w) b 10 of
        Inl e \<Rightarrow> last_check_time w
      | Inr events \<Rightarrow>
          if Max (insert (last_check_time w) (event_ts ` set events)) > last_check_time w
          then Max (insert (last_check_time w) (event_ts ` set events)) + 1000
          else b)"
proof (cases "cl device_mac (last_check_time w) b 10")
  case (Inl e)
  then show ?thesis
    using poll_query_raises [of cl device_mac w b e snk] by (simp add: print_line_simps)
next
  case (Inr events)
  then show ?thesis
    using poll_query_returns_last_check_time [of cl device_mac w b events snk] by simp
qed

lemma poll_posts_eq:
  "posts (poll_for_doorbell_events snk b cl device_mac w) =
     (case cl device_mac (last_check_time w) b 10 of
        Inl e \<Rightarrow> posts w
      | Inr events \<Rightarrow> posts w @ map (payload_of device_mac) (rev (button_presses events)))"
proof (cases "cl device_mac (last_check_time w) b 10")
  case (Inl e)
  then show ?thesis
    using poll_query_raises [of cl device_mac w b e snk] by (simp add: print_line_simps)
next
  case (Inr events)
  then show ?thesis
    using poll_query_returns_posts [of cl device_mac w b events snk] by simp
qed


lemma Max_without_later_event:
  assumes "\<forall>ev \<in> set events. event_ts ev \<le> a"
  shows "Max (insert a (event_ts ` set events)) = a"
  by (rule Max_eqI) (use assms in auto)

lemma poll_last_check_time_passes:
  assumes q: "cl device_mac (last_check_time w) b 10 = Inr events"
    and ab: "last_check_time w < b"
  shows "last_check_time w < last_check_time (poll_for_doorbell_events snk b cl device_mac w)"
    and "ev \<in> set events \<Longrightarrow>
           event_ts ev < last_check_time (poll_for_doorbell_events snk b cl device_mac w)"
proof -
  let ?a = "last_check_time w"
  let ?m = "Max (insert ?a (event_ts ` set events))"
  have a': "last_check_time (poll_for_doorbell_events snk b cl device_mac w) =
              (if ?m > ?a then ?m + 1000 else b)"
    using q poll_query_returns_last_check_time [of cl device_mac w b events snk] by simp
  show "?a < last_check_time (poll_for_doorbell_events snk b cl device_mac w)"
    using a' ab by simp
  assume "ev \<in> set events"
  then have "event_ts ev \<le> ?m" by simp
  then show "event_ts ev < last_check_time (poll_for_doorbell_events snk b cl device_mac w)"
    using a' ab by (simp split: if_splits)
qed


lemma example_simps:
  "returning events device_mac start_time end_time max_count = Inr events"
  "raising e device_mac start_time end_time max_count = Inl e"
  "answering status history = Inr status"
  "refusing e history = Inl e"
  "last_check_time (world_at t) = t"
  "posts (world_at t) = []"
  "log (world_at t) = []"
  "event_ts (press_at t) = t"
  "event_ts (motion_at t) = t"
  by (simp_all add: returning_def raising_def answering_def refusing_def world_at_def
      press_at_def motion_at_def)

subsection \<open>Watermark advance\<close>




text \<open>
  C4. When the query of a cycle with window from \<open>a\<close> to \<open>b\<close> succeeds and returns no
  event, the watermark becomes \<open>b\<close>, the clock reading taken once at the start of that
  cycle, and the next cycle queries a window that starts at \<open>b\<close>.
\<close>

theorem quiet_window_advances_to_now:
  assumes "cl device_mac (last_check_time w) b 10 = Inr []"
  shows "last_check_time (poll_for_doorbell_events snk b cl device_mac w) = b \<and>
         windows snk device_mac [(b, cl), (b', cl')] w = [(last_check_time w, b), (b, b')]"
  using assms poll_query_returns_last_check_time [of cl device_mac w b "[]" snk] by simp

theorem quiet_window_advances_to_now_witness:
  "last_check_time (poll_for_doorbell_events (answering 200) 5000000 (returning []) ''D0'' (world_at 0))
     = 5000000 \<and>
   windows (answering 200) ''D0'' [(5000000, returning []), (10000000, returning [])] (world_at 0)
     = [(0, 5000000), (5000000, 10000000)]"
  using quiet_window_advances_to_now [of "returning []" "''D0''" "world_at 0" 5000000
      "answering 200" 10000000 "returning []"]
  by (simp add: example_simps)

text \<open>
  C10. When the query of a cycle succeeds and returns at least one event, but no returned
  event is later than the window start, the watermark becomes the clock reading taken at
  the start of the cycle, and the qualifying events among those returned are still
  posted in that cycle.
\<close>

theorem old_events_advance_to_now:
  assumes "cl device_mac (last_check_time w) now 10 = Inr events"
    and "events \<noteq> []"
    and "\<forall>ev \<in> set events. event_ts ev \<le> last_check_time w"
  shows "last_check_time (poll_for_doorbell_events snk now cl device_mac w) = now \<and>
         posts (poll_for_doorbell_events snk now cl device_mac w) =
           posts w @ map (payload_of device_mac) (rev (button_presses events))"
  using assms(1) poll_query_returns_last_check_time [of cl device_mac w now events snk]
    poll_query_returns_posts [of cl device_mac w now events snk]
    Max_without_later_event [OF assms(3)]
  by simp

theorem old_events_advance_to_now_witness:
  "last_check_time (poll_for_doorbell_events (answering 200) 5000000
      (returning [press_at 1000, motion_at 900]) ''D0'' (world_at 1000)) = 5000000 \<and>
   posts (poll_for_doorbell_events (answering 200) 5000000
      (returning [press_at 1000, motion_at 900]) ''D0'' (world_at 1000))
     = [payload_of ''D0'' (press_at 1000)]"
  using old_events_advance_to_now [of "returning [press_at 1000, motion_at 900]" "''D0''"
      "world_at 1000" 5000000 "[press_at 1000, motion_at 900]" "answering 200"]
  by (simp add: example_simps button_presses_def press_at_def motion_at_def
      EVENT_TYPE_BUTTON_PRESS_def)

subsection \<open>Watermark monotonicity\<close>




subsection \<open>Query failure\<close>

text \<open>
  C5. When the query of a cycle with window from \<open>a\<close> to \<open>b\<close> raises, the cycle returns
  with nothing posted and the watermark as it was, and the next cycle queries a window
  that starts at \<open>a\<close> again.
\<close>

theorem query_failure_leaves_state:
  assumes "cl device_mac (last_check_time w) b 10 = Inl e"
  shows "posts (poll_for_doorbell_events snk b cl device_mac w) = posts w \<and>
         last_check_time (poll_for_doorbell_events snk b cl device_mac w) = last_check_time w \<and>
         windows snk device_mac [(b, cl), (b', cl')] w
           = [(last_check_time w, b), (last_check_time w, b')]"
  using assms poll_query_raises [of cl device_mac w b e snk] by (simp add: print_line_simps)

theorem query_failure_leaves_state_witness:
  "posts (poll_for_doorbell_events (answering 200) 5000000 (raising Timeout) ''D0'' (world_at 0)) = [] \<and>
   last_check_time (poll_for_doorbell_events (answering 200) 5000000 (raising Timeout) ''D0'' (world_at 0)) = 0 \<and>
   windows (answering 200) ''D0'' [(5000000, raising Timeout), (10000000, returning [])] (world_at 0)
     = [(0, 5000000), (0, 10000000)]"
  using query_failure_leaves_state [of "raising Timeout" "''D0''" "world_at 0" 5000000 Timeout
      "answering 200" 10000000 "returning []"]
  by (simp add: example_simps)

subsection \<open>A window whose start is after its end\<close>

text \<open>
  C9, as the code has it. The cycle has no check of the window and issues the query as
  it is. When that query succeeds and returns no event, nothing is posted and the
  watermark becomes the window end; when it raises, nothing is posted and the watermark
  stays at the window start.
\<close>

theorem inverted_window_follows_query:
  assumes "b < last_check_time w"
  shows "(cl device_mac (last_check_time w) b 10 = Inr [] \<longrightarrow>
            posts (poll_for_doorbell_events snk b cl device_mac w) = posts w \<and>
            last_check_time (poll_for_doorbell_events snk b cl device_mac w) = b) \<and>
         (cl device_mac (last_check_time w) b 10 = Inl e \<longrightarrow>
            posts (poll_for_doorbell_events snk b cl device_mac w) = posts w \<and>
            last_check_time (poll_for_doorbell_events snk b cl device_mac w) = last_check_time w)"
  using poll_query_returns_last_check_time [of cl device_mac w b "[]" snk]
    poll_query_returns_posts [of cl device_mac w b "[]" snk]
    poll_query_raises [of cl device_mac w b e snk]
  by (simp add: print_line_simps button_presses_def)

theorem inverted_window_follows_query_witness:
  "(5000000::int) < last_check_time (world_at 10000000) \<and>
   posts (poll_for_doorbell_events (answering 200) 5000000 (returning []) ''D0'' (world_at 10000000)) = [] \<and>
   last_check_time (poll_for_doorbell_events (answering 200) 5000000 (returning []) ''D0'' (world_at 10000000))
     = 5000000 \<and>
   posts (poll_for_doorbell_events (answering 200) 5000000 (raising ConnectionError) ''D0''
      (world_at 10000000)) = [] \<and>
   last_check_time (poll_for_doorbell_events (answering 200) 5000000 (raising ConnectionError) ''D0''
      (world_at 10000000)) = 10000000"
  using inverted_window_follows_query [of 5000000 "world_at 10000000" "returning []" "''D0''"
      "answering 200" ConnectionError]
    inverted_window_follows_query [of 5000000 "world_at 10000000" "raising ConnectionError" "''D0''"
      "answering 200" ConnectionError]
  by (simp add: example_simps)

text \<open>
  C9 as stated fails: on a window whose start is after its end, a query that times out
  leaves the watermark at the start, and a query that returns a button press has it
  posted.
\<close>

theorem inverted_window_counterexample:
  "(5000000::int) < last_check_time (world_at 10000000) \<and>
   last_check_time (poll_for_doorbell_events (answering 200) 5000000 (raising Timeout) ''D0''
      (world_at 10000000)) = 10000000 \<and>
   posts (poll_for_doorbell_events (answering 200) 5000000 (returning [press_at 4000000]) ''D0''
      (world_at 10000000)) = [payload_of ''D0'' (press_at 4000000)]"
  using poll_query_raises [of "raising Timeout" "''D0''" "world_at 10000000" 5000000 Timeout
      "answering 200"]
    poll_query_returns_posts [of "returning [press_at 4000000]" "''D0''" "world_at 10000000" 5000000
       "[press_at 4000000]" "answering 200"]
  by (simp add: example_simps print_line_simps button_presses_def press_at_def
      EVENT_TYPE_BUTTON_PRESS_def)

subsection \<open>Delivery\<close>

text \<open>
  The cycle posts the qualifying events in the reverse of the order in which the query
  returned them (line 112): oldest first when the query returns newest first.
\<close>

lemma eventTimeUtc_payload_of: "eventTimeUtc (payload_of device_mac ev) = event_ts ev"
  by (simp add: payload_of_def make_payload_def make_event_data_def)

lemma newest_first_posted_oldest_first:
  assumes "cl device_mac (last_check_time w) now 10 = Inr events"
    and "sorted (map event_ts (rev events))"
  shows "sorted (map eventTimeUtc
           (drop (length (posts w)) (posts (poll_for_doorbell_events snk now cl device_mac w))))"
proof -
  have "map eventTimeUtc
          (drop (length (posts w)) (posts (poll_for_doorbell_events snk now cl device_mac w)))
        = map event_ts (filter (\<lambda>ev. event_type ev = EVENT_TYPE_BUTTON_PRESS) (rev events))"
    using assms(1) poll_query_returns_posts [of cl device_mac w now events snk]
    by (simp add: button_presses_def rev_filter eventTimeUtc_payload_of comp_def)
  then show ?thesis
    using assms(2) sorted_filter [of event_ts "rev events"] by simp
qed

text \<open>
  C6. Qualifying events are to be posted oldest first whatever the order in which the
  query returns them. The code does not do so: returned oldest first, three button
  presses are posted newest first.
\<close>

theorem ascending_source_posted_newest_first:
  "map eventTimeUtc (posts (poll_for_doorbell_events (answering 200) 5000000
      (returning [press_at 1000, press_at 2000, press_at 3000]) ''D0'' (world_at 0)))
     = [3000, 2000, 1000]"
  using poll_query_returns_posts [of "returning [press_at 1000, press_at 2000, press_at 3000]" "''D0''"
      "world_at 0" 5000000 "[press_at 1000, press_at 2000, press_at 3000]" "answering 200"]
  by (simp add: example_simps button_presses_def press_at_def EVENT_TYPE_BUTTON_PRESS_def
      payload_of_def make_payload_def make_event_data_def)

text \<open>
  C7. Whatever the endpoint answers to each request, a cycle whose query succeeds posts
  every qualifying event, and leaves the watermark where a cycle with an endpoint that
  always answers 200 leaves it.
\<close>

theorem delivery_failures_do_not_abort:
  assumes "cl device_mac (last_check_time w) now 10 = Inr events"
  shows "posts (poll_for_doorbell_events snk now cl device_mac w) =
           posts w @ map (payload_of device_mac) (rev (button_presses events)) \<and>
         last_check_time (poll_for_doorbell_events snk now cl device_mac w) =
           last_check_time (poll_for_doorbell_events (answering 200) now cl device_mac w)"
  using assms poll_query_returns_last_check_time [of cl device_mac w now events snk]
    poll_query_returns_last_check_time [of cl device_mac w now events "answering 200"]
    poll_query_returns_posts [of cl device_mac w now events snk]
  by simp

text \<open>The first request times out and the second is answered 500; the third is still sent.\<close>

theorem delivery_failures_do_not_abort_witness:
  "unreliable [payload_of ''D0'' (press_at 1000)] = Inl Timeout \<and>
   unreliable [payload_of ''D0'' (press_at 1000), payload_of ''D0'' (press_at 2000)] = Inr 500 \<and>
   posts (poll_for_doorbell_events unreliable 5000000
      (returning [press_at 3000, press_at 2000, press_at 1000]) ''D0'' (world_at 0)) =
     [payload_of ''D0'' (press_at 1000), payload_of ''D0'' (press_at 2000),
      payload_of ''D0'' (press_at 3000)] \<and>
   last_check_time (poll_for_doorbell_events unreliable 5000000
      (returning [press_at 3000, press_at 2000, press_at 1000]) ''D0'' (world_at 0)) = 4000"
  using delivery_failures_do_not_abort
      [of "returning [press_at 3000, press_at 2000, press_at 1000]" "''D0''" "world_at 0" 5000000
          "[press_at 3000, press_at 2000, press_at 1000]" unreliable]
    poll_query_returns_last_check_time
      [of "returning [press_at 3000, press_at 2000, press_at 1000]" "''D0''" "world_at 0" 5000000
          "[press_at 3000, press_at 2000, press_at 1000]" "answering 200"]
  by (simp add: example_simps button_presses_def press_at_def EVENT_TYPE_BUTTON_PRESS_def
      unreliable_def)

text \<open>
  C8, as the code has it. A call of the adapter never raises and sends one request. It
  prints the success line exactly when the request is answered with a status outside
  400-599; a status from 400 to 599 and every exception of the request are printed as
  an error and swallowed.
\<close>

theorem send_to_csharp_bridge_classifies:
  "snd (send_to_csharp_bridge snk ed w) = Inr () \<and>
   posts (fst (send_to_csharp_bridge snk ed w)) = posts w @ [make_payload ed] \<and>
   log (fst (send_to_csharp_bridge snk ed w)) =
     log w @ [Sending,
              case snk (posts w @ [make_payload ed]) of
                Inl e \<Rightarrow> if is_RequestException e then SendError e else SendUnexpected e
              | Inr status \<Rightarrow>
                  if 400 \<le> status \<and> status < 600 then SendError (HTTPError status)
                  else Responded status]"
  by (simp add: send_to_csharp_bridge_def send_try_def requests_post_def raise_for_status_def
      Let_def print_line_simps split: sum.splits)

theorem send_to_csharp_bridge_classifies_witness:
  "log (fst (send_to_csharp_bridge (answering 204) (make_event_data ''D0'' (press_at 1000)) (world_at 0)))
     = [Sending, Responded 204] \<and>
   log (fst (send_to_csharp_bridge (answering 503) (make_event_data ''D0'' (press_at 1000)) (world_at 0)))
     = [Sending, SendError (HTTPError 503)] \<and>
   log (fst (send_to_csharp_bridge (refusing Timeout) (make_event_data ''D0'' (press_at 1000)) (world_at 0)))
     = [Sending, SendError Timeout] \<and>
   snd (send_to_csharp_bridge (refusing OtherException) (make_event_data ''D0'' (press_at 1000)) (world_at 0))
     = Inr ()"
  using send_to_csharp_bridge_classifies [of "answering 204" "make_event_data ''D0'' (press_at 1000)" "world_at 0"]
    send_to_csharp_bridge_classifies [of "answering 503" "make_event_data ''D0'' (press_at 1000)" "world_at 0"]
    send_to_csharp_bridge_classifies [of "refusing Timeout" "make_event_data ''D0'' (press_at 1000)" "world_at 0"]
    send_to_csharp_bridge_classifies [of "refusing OtherException" "make_event_data ''D0'' (press_at 1000)" "world_at 0"]
  by (simp add: example_simps)

text \<open>
  C8 as stated fails: a request answered 304, which is not in the 2xx range, is printed
  as a success.
\<close>

theorem send_to_csharp_bridge_counterexample:
  "log (fst (send_to_csharp_bridge (answering 304) (make_event_data ''D0'' (press_at 1000)) (world_at 0)))
     = [Sending, Responded 304] \<and>
   \<not> (200 \<le> (304::int) \<and> (304::int) < 300)"
  by (simp add: send_to_csharp_bridge_def send_try_def requests_post_def raise_for_status_def
      Let_def print_line_simps example_simps)

subsection \<open>No re-delivery across cycles\<close>

lemma windows_cycles_Nil: "windows snk device_mac (cycles cl []) w = []"
  by (simp add: cycles_def)

lemma windows_cycles_Cons:
  "windows snk device_mac (cycles cl (b # nows)) w =
     (last_check_time w, b) # windows snk device_mac (cycles cl nows)
        (poll_for_doorbell_events snk b cl device_mac w)"
  by (simp add: cycles_def)

lemma run_cycles_Cons:
  "run_cycles snk device_mac (cycles cl (b # nows)) w =
     run_cycles snk device_mac (cycles cl nows) (poll_for_doorbell_events snk b cl device_mac w)"
  by (simp add: cycles_def)

text \<open>
  The cycles post, each once, the events between the first window's start and the
  latest clock reading: a cycle posts what its window holds and leaves the watermark
  past all of it, and the next window starts no later than this one ended.
\<close>

lemma run_cycles_delivers:
  assumes "\<forall>ev \<in> set E. event_type ev = EVENT_TYPE_BUTTON_PRESS"
    and "nows \<noteq> []"
    and "overlapping (windows snk device_mac (cycles cl nows) w)"
    and "\<forall>win \<in> set (windows snk device_mac (cycles cl nows) w). returns_window E cl device_mac win"
  shows "\<exists>delivered.
           posts (run_cycles snk device_mac (cycles cl nows) w) =
             posts w @ map (payload_of device_mac) delivered \<and>
           distinct delivered \<and>
           {ev \<in> set E. last_check_time w \<le> event_ts ev \<and> event_ts ev < Max (set nows)}
             \<subseteq> set delivered \<and>
           set delivered
             \<subseteq> {ev \<in> set E. last_check_time w \<le> event_ts ev \<and> event_ts ev \<le> Max (set nows)}"
  using assms(2-)
proof (induction nows arbitrary: w)
  case Nil
  then show ?case by simp
next
  case (Cons b nows)
  let ?w' = "poll_for_doorbell_events snk b cl device_mac w"
  let ?a = "last_check_time w"
  have win: "returns_window E cl device_mac (?a, b)"
    using Cons.prems(3) by (simp add: windows_cycles_Cons)
  then obtain events where q: "cl device_mac ?a b 10 = Inr events"
    and d: "distinct events"
    and lo: "{ev \<in> set E. ?a \<le> event_ts ev \<and> event_ts ev < b} \<subseteq> set events"
    and hi: "set events \<subseteq> {ev \<in> set E. ?a \<le> event_ts ev \<and> event_ts ev \<le> b}"
    by (auto simp: returns_window_def split: sum.splits)
  have ab: "?a < b"
    using Cons.prems(2) by (cases nows) (simp_all add: windows_cycles_Cons windows_cycles_Nil)
  have bp: "button_presses events = events"
    using hi assms(1) by (auto simp: button_presses_def filter_id_conv)
  have p1: "posts ?w' = posts w @ map (payload_of device_mac) (rev events)"
    using q poll_query_returns_posts [of cl device_mac w b events snk] bp by simp
  have lt: "?a < last_check_time ?w'"
    using q ab poll_last_check_time_passes(1) [of cl device_mac w b events snk] by simp
  have past: "\<forall>ev \<in> set events. event_ts ev < last_check_time ?w'"
    using q ab poll_last_check_time_passes(2) [of cl device_mac w b events _ snk] by blast
  show ?case
  proof (cases nows)
    case Nil
    have "posts (run_cycles snk device_mac (cycles cl (b # nows)) w) =
            posts w @ map (payload_of device_mac) (rev events)"
      using p1 Nil by (simp add: cycles_def)
    moreover have "distinct (rev events)" using d by simp
    moreover have "{ev \<in> set E. ?a \<le> event_ts ev \<and> event_ts ev < Max (set (b # nows))}
                     \<subseteq> set (rev events)"
      using lo Nil by simp
    moreover have "set (rev events)
                     \<subseteq> {ev \<in> set E. ?a \<le> event_ts ev \<and> event_ts ev \<le> Max (set (b # nows))}"
      using hi Nil by simp
    ultimately show ?thesis by blast
  next
    case (Cons b' rest)
    have ne: "nows \<noteq> []" using Cons by simp
    have ov: "overlapping (windows snk device_mac (cycles cl nows) ?w')"
      and a'b: "last_check_time ?w' \<le> b"
      using Cons.prems(2) Cons by (simp_all add: windows_cycles_Cons)
    have hw: "\<forall>win \<in> set (windows snk device_mac (cycles cl nows) ?w').
                returns_window E cl device_mac win"
      using Cons.prems(3) by (simp add: windows_cycles_Cons)
    obtain delivered where
      p2: "posts (run_cycles snk device_mac (cycles cl nows) ?w') =
             posts ?w' @ map (payload_of device_mac) delivered"
      and d2: "distinct delivered"
      and lo2: "{ev \<in> set E. last_check_time ?w' \<le> event_ts ev \<and> event_ts ev < Max (set nows)}
                  \<subseteq> set delivered"
      and hi2: "set delivered
                  \<subseteq> {ev \<in> set E. last_check_time ?w' \<le> event_ts ev \<and> event_ts ev \<le> Max (set nows)}"
      using Cons.IH [OF ne ov hw] by blast
    have fin: "finite (set nows)" "set nows \<noteq> {}" using ne by simp_all
    have mx: "Max (set (b # nows)) = max b (Max (set nows))"
      using fin by simp
    have disj: "set (rev events) \<inter> set delivered = {}"
      using past hi2 by fastforce
    have lo3: "{ev \<in> set E. ?a \<le> event_ts ev \<and> event_ts ev < Max (set (b # nows))}
                 \<subseteq> set (rev events @ delivered)"
    proof
      fix ev
      assume "ev \<in> {ev \<in> set E. ?a \<le> event_ts ev \<and> event_ts ev < Max (set (b # nows))}"
      then have e: "ev \<in> set E" "?a \<le> event_ts ev" "event_ts ev < max b (Max (set nows))"
        using mx by simp_all
      show "ev \<in> set (rev events @ delivered)"
      proof (cases "event_ts ev < b")
        case True
        then show ?thesis using e lo by auto
      next
        case False
        then have "last_check_time ?w' \<le> event_ts ev" "event_ts ev < Max (set nows)"
          using a'b e(3) by simp_all
        then show ?thesis using e(1) lo2 by auto
      qed
    qed
    have hi3: "set (rev events @ delivered)
                 \<subseteq> {ev \<in> set E. ?a \<le> event_ts ev \<and> event_ts ev \<le> Max (set (b # nows))}"
      unfolding mx using hi hi2 lt by auto
    have "posts (run_cycles snk device_mac (cycles cl (b # nows)) w) =
            posts w @ map (payload_of device_mac) (rev events @ delivered)"
      using p1 p2 by (simp add: run_cycles_Cons)
    moreover have "distinct (rev events @ delivered)"
      using d d2 disj by simp
    ultimately show ?thesis using lo3 hi3 by blast
  qed
qed

lemma strictly_increasing_distinct:
  "sorted_wrt (\<lambda>x y. event_ts x < event_ts y) E \<Longrightarrow> distinct (map event_ts E)"
  by (induction E) auto

text \<open>
  C1. Let \<open>E\<close> be a fixed list of qualifying events with strictly increasing timestamps,
  and let N consecutive cycles query windows that overlap, each query succeeding and
  returning the events of \<open>E\<close> that fall in its window, at most 10 of them. If every
  event of \<open>E\<close> lies at or after the first window's start and before the last window's
  end, then
  the requests posted by the N cycles are those of a list that holds every event of \<open>E\<close>
  and no timestamp twice: each event is posted exactly once.
\<close>

theorem each_event_delivered_once:
  assumes inc: "sorted_wrt (\<lambda>x y. event_ts x < event_ts y) E"
    and qual: "\<forall>ev \<in> set E. event_type ev = EVENT_TYPE_BUTTON_PRESS"
    and ne: "nows \<noteq> []"
    and spread: "\<forall>ev \<in> set E. last_check_time w \<le> event_ts ev \<and> event_ts ev < last nows"
    and ov: "overlapping (windows snk device_mac (cycles cl nows) w)"
    and hon: "\<forall>win \<in> set (windows snk device_mac (cycles cl nows) w).
                returns_window E cl device_mac win"
  shows "\<exists>delivered.
           posts (run_cycles snk device_mac (cycles cl nows) w) =
             posts w @ map (payload_of device_mac) delivered \<and>
           distinct (map event_ts delivered) \<and>
           set delivered = set E"
proof -
  obtain delivered where
    p: "posts (run_cycles snk device_mac (cycles cl nows) w) =
          posts w @ map (payload_of device_mac) delivered"
    and d: "distinct delivered"
    and lo: "{ev \<in> set E. last_check_time w \<le> event_ts ev \<and> event_ts ev < Max (set nows)}
               \<subseteq> set delivered"
    and hi: "set delivered
               \<subseteq> {ev \<in> set E. last_check_time w \<le> event_ts ev \<and> event_ts ev \<le> Max (set nows)}"
    using run_cycles_delivers [OF qual ne ov hon] by blast
  have "last nows \<le> Max (set nows)" using ne by simp
  then have "set E \<subseteq> set delivered" using lo spread by fastforce
  then have s': "set delivered = set E" using hi by blast
  have "inj_on event_ts (set E)"
    using strictly_increasing_distinct [OF inc] by (simp add: distinct_map)
  then have "distinct (map event_ts delivered)"
    using d s' by (simp add: distinct_map)
  then show ?thesis using p s' by blast
qed

text \<open>
  Three button presses, one in each of three windows; the second and third windows
  start inside the window before them.
\<close>

theorem each_event_delivered_once_witness:
  "windows (answering 200) ''D0'' (cycles (upstream three_presses) [5000000, 10000000, 15000000])
     (world_at 0)
     = [(0, 5000000), (1001000, 10000000), (6001000, 15000000)] \<and>
   posts (run_cycles (answering 200) ''D0''
            (cycles (upstream three_presses) [5000000, 10000000, 15000000]) (world_at 0))
     = map (payload_of ''D0'') three_presses \<and>
   (\<exists>delivered.
      posts (run_cycles (answering 200) ''D0''
               (cycles (upstream three_presses) [5000000, 10000000, 15000000]) (world_at 0))
        = posts (world_at 0) @ map (payload_of ''D0'') delivered \<and>
      distinct (map event_ts delivered) \<and> set delivered = set three_presses)"
proof -
  have w: "windows (answering 200) ''D0''
             (cycles (upstream three_presses) [5000000, 10000000, 15000000]) (world_at 0)
     = [(0, 5000000), (1001000, 10000000), (6001000, 15000000)]"
    by (simp add: cycles_def poll_last_check_time_eq example_simps upstream_def three_presses_def)
  have p: "posts (run_cycles (answering 200) ''D0''
                    (cycles (upstream three_presses) [5000000, 10000000, 15000000]) (world_at 0))
     = map (payload_of ''D0'') three_presses"
    by (simp add: cycles_def poll_last_check_time_eq poll_posts_eq example_simps upstream_def
        three_presses_def button_presses_def press_at_def EVENT_TYPE_BUTTON_PRESS_def)
  have h1: "sorted_wrt (\<lambda>x y. event_ts x < event_ts y) three_presses"
    by (simp add: three_presses_def example_simps)
  have h2: "\<forall>ev \<in> set three_presses. event_type ev = EVENT_TYPE_BUTTON_PRESS"
    by (simp add: three_presses_def press_at_def EVENT_TYPE_BUTTON_PRESS_def)
  have h4: "\<forall>ev \<in> set three_presses. last_check_time (world_at 0) \<le> event_ts ev
               \<and> event_ts ev < last [5000000, 10000000, 15000000]"
    by (simp add: three_presses_def example_simps)
  have h5: "overlapping (windows (answering 200) ''D0''
               (cycles (upstream three_presses) [5000000, 10000000, 15000000]) (world_at 0))"
    unfolding w by simp
  have h6: "\<forall>win \<in> set (windows (answering 200) ''D0''
               (cycles (upstream three_presses) [5000000, 10000000, 15000000]) (world_at 0)).
             returns_window three_presses (upstream three_presses) ''D0'' win"
    unfolding w
    by (simp add: returns_window_def upstream_def three_presses_def example_simps press_at_def)
  show ?thesis
    using w p each_event_delivered_once [of three_presses "[5000000, 10000000, 15000000]"
        "world_at 0" "answering 200" "''D0''" "upstream three_presses"] h1 h2 h4 h5 h6
    by simp
qed

text \<open>
  The premise that the windows overlap carries the part of C1 that says no event is
  skipped. When the newest event of a cycle is less than a millisecond older than the
  clock reading, the next window starts after this one ended, and an event that falls
  in between is never queried.
\<close>

lemma gap_between_windows_example:
  "windows (answering 200) ''D0'' (cycles (upstream [press_at 9900, press_at 10500]) [10000, 5010000])
     (world_at 0)
     = [(0, 10000), (10900, 5010000)] \<and>
   posts (run_cycles (answering 200) ''D0''
            (cycles (upstream [press_at 9900, press_at 10500]) [10000, 5010000]) (world_at 0))
     = [payload_of ''D0'' (press_at 9900)]"
  by (simp add: cycles_def poll_last_check_time_eq poll_posts_eq example_simps upstream_def
      button_presses_def press_at_def EVENT_TYPE_BUTTON_PRESS_def)

end
